theory Spec2Isabelle
  imports Main "HOL-Library.List_Lexorder" "HOL-Library.Char_ord"
begin

section \<open>cpenv: the module manager's API (\<^verbatim>\<open>cpenv/api.py\<close>) and its command line
  (\<^verbatim>\<open>cpenv/__main__.py\<close>)\<close>

text \<open>
  The process-wide state of \<^verbatim>\<open>api.py\<close> (the dictionary \<^verbatim>\<open>_registry\<close>, the list
  \<^verbatim>\<open>_active_modules\<close>, \<^verbatim>\<open>os.environ\<close>) and the part of the file system and of
  the hook machinery that \<^verbatim>\<open>create\<close> and \<^verbatim>\<open>set_home_path\<close> touch are one record,
  passed to every function and returned updated. Exceptions are values of \<open>error\<close>.
  Strings are byte lists; their order (\<open>List_Lexorder\<close> over \<open>Char_ord\<close>) is the
  lexicographic order Python's \<^verbatim>\<open>str\<close> comparison uses.
\<close>

subsection \<open>Data\<close>

datatype error =
    OSError
  | KeyError
  | AttributeError
  | ValueError
  | IndexError
  | UnboundLocalError
  | NameError
  | TypeError
  | ResolveError string

text \<open>
  Modelled from the spec: the class \<^verbatim>\<open>Module\<close> (\<^verbatim>\<open>cpenv/module.py\<close>) is not
  among the sources. The attributes are those \<^verbatim>\<open>api.py\<close> and \<^verbatim>\<open>__main__.py\<close> read
  (\<^verbatim>\<open>path\<close>, \<^verbatim>\<open>name\<close>, \<^verbatim>\<open>version\<close>, \<^verbatim>\<open>real_name\<close>); Python's \<^verbatim>\<open>==\<close>
  on modules (used by \<^verbatim>\<open>in\<close> and \<^verbatim>\<open>list.remove\<close>) is equality of the record.
\<close>

record module =
  path :: string
  name :: string
  version :: string
  real_name :: string

text \<open>
  Modelled from the spec: the constructor \<^verbatim>\<open>Module(where, name, version)\<close>; the
  \<^verbatim>\<open>real_name\<close> is the name-version string of the spec's glossary.
\<close>

definition Module :: "string \<Rightarrow> string \<Rightarrow> string \<Rightarrow> module" where
  "Module p n v = \<lparr>path = p, name = n, version = v, real_name = n @ ''-'' @ v\<rparr>"

text \<open>
  Modelled from the spec (sections 3, 4.1 and 4.2): a requirement is a name with a version
  constraint, a \<^verbatim>\<open>ModuleSpec\<close> is what a repository lists, with its declared
  \<^verbatim>\<open>requires\<close> and environment deltas. The requirement parser, the classes
  \<^verbatim>\<open>ModuleSpec\<close>, \<^verbatim>\<open>Repo\<close> and \<^verbatim>\<open>LocalRepo\<close> and the version type are not among
  the sources. A version is its list of numbers, ordered lexicographically.
\<close>

type_synonym version_number = "nat list"

datatype constraint =
    Unconstrained
  | Exact version_number
  | AtLeast version_number
  | AtMost version_number

record requirement =
  req_name :: string
  req_constraint :: constraint

datatype env_op =
    SetValue string
  | Prepend string string
  | Append string string

datatype repo_class = LocalRepoClass | RemoteRepoClass

text \<open>
  A repository object: its \<^verbatim>\<open>name\<close> and \<^verbatim>\<open>path\<close> attributes and its class (what
  \<^verbatim>\<open>isinstance(repo, LocalRepo)\<close> reads). What its storage holds is not part of the
  object: the capability \<^verbatim>\<open>list()\<close> is a function from repositories to module specs,
  passed where it is called.
\<close>

record repo =
  repo_name :: string
  repo_path :: string
  repo_class :: repo_class

definition LocalRepo :: "string \<Rightarrow> string \<Rightarrow> repo" where
  "LocalRepo n p = \<lparr>repo_name = n, repo_path = p, repo_class = LocalRepoClass\<rparr>"

record module_spec =
  spec_name :: string
  spec_version :: version_number
  spec_path :: string
  spec_repo :: repo
  spec_requires :: "requirement list"
  spec_environment :: "(string \<times> env_op list) list"

text \<open>
  \<^verbatim>\<open>_registry = {'repos': OrderedDict()}\<close>: a dictionary whose key \<^verbatim>\<open>'repos'\<close> holds
  the ordered dictionary of the registered repositories. \<^verbatim>\<open>update_repo\<close> stores a
  repository under its own name in the same dictionary, so a value is either.
\<close>

datatype registry_value =
    Repos "(string \<times> repo) list"
  | RepoValue repo

datatype event =
    HookRun string
  | FileWritten string

text \<open>A value of a module's configuration (\<^verbatim>\<open>kwargs\<close> of \<^verbatim>\<open>create\<close>).\<close>

datatype config_value =
    ConfigStr string
  | ConfigList "string list"
  | ConfigDict "(string \<times> string) list"

type_synonym config = "(string \<times> config_value) list"

record state =
  registry :: "string \<rightharpoonup> registry_value"
  active_modules :: "module list"
  environ :: "string \<rightharpoonup> string"
  dirs :: "string set"
  files :: "string \<rightharpoonup> string \<times> config"
  events :: "event list"

subsection \<open>The repository registry\<close>

definition get_repos :: "state \<Rightarrow> error + repo list" where
  "get_repos st =
     (case registry st ''repos'' of
        None \<Rightarrow> Inl KeyError
      | Some (RepoValue r) \<Rightarrow> Inl AttributeError
      | Some (Repos od) \<Rightarrow> Inr (map snd od))"

definition update_repo :: "state \<Rightarrow> repo \<Rightarrow> state" where
  "update_repo st r = st\<lparr>registry := (registry st)(repo_name r \<mapsto> RepoValue r)\<rparr>"

text \<open>\<^verbatim>\<open>list.insert(idx, x)\<close>: a negative index counts from the end, and an index out
  of range is clamped.\<close>

definition py_insert :: "int \<Rightarrow> 'a \<Rightarrow> 'a list \<Rightarrow> 'a list" where
  "py_insert i x xs =
     (let n = int (length xs);
          j = (if i < 0 then max 0 (n + i) else min i n)
      in take (nat j) xs @ [x] @ drop (nat j) xs)"

definition add_repo :: "state \<Rightarrow> repo \<Rightarrow> int option \<Rightarrow> error + state" where
  "add_repo st r idx =
     (case registry st ''repos'' of
        None \<Rightarrow> Inl KeyError
      | Some (RepoValue x) \<Rightarrow> Inl TypeError
      | Some (Repos od) \<Rightarrow>
          if repo_name r \<notin> fst ` set od then
            (case idx of
               Some i \<Rightarrow>
                 Inr (st\<lparr>registry := (registry st)(''repos'' \<mapsto>
                        Repos (py_insert i (repo_name r, r) od))\<rparr>)
             | None \<Rightarrow>
                 Inr (st\<lparr>registry := (registry st)(''repos'' \<mapsto>
                        Repos (od @ [(repo_name r, r)]))\<rparr>))
          else Inr st)"

definition remove_repo :: "state \<Rightarrow> repo \<Rightarrow> error + state" where
  "remove_repo st r =
     (case registry st ''repos'' of
        None \<Rightarrow> Inl KeyError
      | Some (RepoValue x) \<Rightarrow> Inl AttributeError
      | Some (Repos od) \<Rightarrow>
          Inr (st\<lparr>registry := (registry st)(''repos'' \<mapsto>
                 Repos (filter (\<lambda>kv. fst kv \<noteq> repo_name r) od))\<rparr>))"

text \<open>The values \<^verbatim>\<open>get_repo\<close> compares: a keyword argument's value, and the default
  \<^verbatim>\<open>False\<close> of \<^verbatim>\<open>getattr(repo, k, False)\<close>.\<close>

datatype pyval =
    PyStr string
  | PyBool bool

definition repo_getattr :: "repo \<Rightarrow> string \<Rightarrow> pyval \<Rightarrow> pyval" where
  "repo_getattr r k dflt =
     (if k = ''name'' then PyStr (repo_name r)
      else if k = ''path'' then PyStr (repo_path r)
      else dflt)"

definition repo_matches :: "(string \<times> pyval) list \<Rightarrow> repo \<Rightarrow> bool" where
  "repo_matches query r = list_all (\<lambda>kv. repo_getattr r (fst kv) (PyBool False) = snd kv) query"

text \<open>The first argument of \<^verbatim>\<open>get_repo\<close>: a \<^verbatim>\<open>Repo\<close> object or a name.\<close>

datatype repo_ref =
    ByRepo repo
  | ByName string

text \<open>\<^verbatim>\<open>query['name'] = name\<close> on a keyword dictionary (which cannot hold the key
  \<^verbatim>\<open>'name'\<close> itself, the name of the positional parameter).\<close>

definition get_repo :: "state \<Rightarrow> repo_ref \<Rightarrow> (string \<times> pyval) list \<Rightarrow> error + repo option" where
  "get_repo st ref query =
     (case ref of
        ByRepo r \<Rightarrow> Inr (Some r)
      | ByName n \<Rightarrow>
          (case get_repos st of
             Inl e \<Rightarrow> Inl e
           | Inr rs \<Rightarrow> Inr (find (repo_matches (query @ [(''name'', PyStr n)])) rs)))"

subsection \<open>The active-module registry\<close>

text \<open>\<^verbatim>\<open>sep.join(xs)\<close>.\<close>

fun join :: "string \<Rightarrow> string list \<Rightarrow> string" where
  "join sep [] = []"
| "join sep [x] = x"
| "join sep (x # y # ys) = x @ sep @ join sep (y # ys)"

definition get_active_modules :: "state \<Rightarrow> module list" where
  "get_active_modules st = active_modules st"

text \<open>\<^verbatim>\<open>os.pathsep\<close> is a parameter. \<^verbatim>\<open>list.sort(key=...)\<close> is stable, as
  \<open>sort_key\<close> is.\<close>

definition add_active_module :: "string \<Rightarrow> state \<Rightarrow> module \<Rightarrow> state" where
  "add_active_module pathsep st m =
     (let ms = (if m \<notin> set (active_modules st) then active_modules st @ [m]
                else active_modules st);
          ms' = sort_key real_name ms;
          module_names = join pathsep (map real_name ms')
      in st\<lparr>active_modules := ms',
            environ := (environ st)(''CPENV_ACTIVE_MODULES'' \<mapsto> module_names)\<rparr>)"

definition remove_active_module :: "string \<Rightarrow> state \<Rightarrow> module \<Rightarrow> state" where
  "remove_active_module pathsep st m =
     (let ms = (if m \<in> set (active_modules st) then remove1 m (active_modules st)
                else active_modules st);
          module_names = join pathsep (map real_name ms)
      in st\<lparr>active_modules := ms,
            environ := (environ st)(''CPENV_ACTIVE_MODULES'' \<mapsto> module_names)\<rparr>)"

text \<open>\<^verbatim>\<open>deactivate\<close> is a stub in \<^verbatim>\<open>api.py\<close> (its body is \<^verbatim>\<open>pass\<close>).\<close>

definition deactivate :: "state \<Rightarrow> state" where
  "deactivate st = st"

text \<open>A sequence of calls of the two functions.\<close>

datatype registry_call =
    AddActive module
  | RemoveActive module

fun run_calls :: "string \<Rightarrow> state \<Rightarrow> registry_call list \<Rightarrow> state" where
  "run_calls pathsep st [] = st"
| "run_calls pathsep st (AddActive m # cs) = run_calls pathsep (add_active_module pathsep st m) cs"
| "run_calls pathsep st (RemoveActive m # cs) =
     run_calls pathsep (remove_active_module pathsep st m) cs"

text \<open>The module globals as \<^verbatim>\<open>api.py\<close> sets them when it is imported, over a given
  process environment and an empty storage.\<close>

definition initial_state :: "(string \<rightharpoonup> string) \<Rightarrow> state" where
  "initial_state env =
     \<lparr>registry = [''repos'' \<mapsto> Repos []], active_modules = [], environ = env,
      dirs = {}, files = Map.empty, events = []\<rparr>"

fun call_module :: "registry_call \<Rightarrow> module" where
  "call_module (AddActive m) = m"
| "call_module (RemoveActive m) = m"

subsection \<open>The home path\<close>

text \<open>
  \<^verbatim>\<open>utils.normpath(*parts)\<close> and \<^verbatim>\<open>appdirs.site_data_dir\<close> are not among the
  sources: the first is the parameter \<open>normpath\<close> (from the list of its arguments to the
  normalised path), the second's result the parameter \<open>home_default\<close>.
  Modelled from the spec: \<^verbatim>\<open>utils.ensure_path_exists\<close> is not among the sources
  either; by its name, the directory exists afterwards.
\<close>

definition ensure_path_exists :: "state \<Rightarrow> string \<Rightarrow> state" where
  "ensure_path_exists st p = st\<lparr>dirs := insert p (dirs st)\<rparr>"

definition init_home_path :: "(string list \<Rightarrow> string) \<Rightarrow> state \<Rightarrow> string \<Rightarrow> state" where
  "init_home_path normpath st home =
     (let home_modules = normpath [home, ''modules''];
          home_cache = normpath [home, ''cache''];
          st1 = ensure_path_exists st home;
          st2 = ensure_path_exists st1 home_modules
      in ensure_path_exists st2 home_cache)"

definition get_home_path :: "(string list \<Rightarrow> string) \<Rightarrow> string \<Rightarrow> state \<Rightarrow> string" where
  "get_home_path normpath home_default st =
     normpath [case environ st ''CPENV_HOME'' of None \<Rightarrow> home_default | Some h \<Rightarrow> h]"

definition get_home_modules_path :: "(string list \<Rightarrow> string) \<Rightarrow> string \<Rightarrow> state \<Rightarrow> string" where
  "get_home_modules_path normpath home_default st =
     normpath [get_home_path normpath home_default st, ''modules'']"

definition set_home_path ::
  "(string list \<Rightarrow> string) \<Rightarrow> string \<Rightarrow> state \<Rightarrow> string \<Rightarrow> string \<times> state" where
  "set_home_path normpath home_default st p =
     (let home = normpath [p];
          st1 = st\<lparr>environ := (environ st)(''CPENV_HOME'' \<mapsto> home)\<rparr>;
          st2 = init_home_path normpath st1 home;
          st3 = update_repo st2
                  (LocalRepo ''home'' (get_home_modules_path normpath home_default st2))
      in (home, st3))"

subsection \<open>Creating a module\<close>


text \<open>
  \<^verbatim>\<open>hooks.run_global_hook\<close> is not among the sources. A hook is recorded as an event
  when it runs; the \<^verbatim>\<open>pre_create\<close> hook is handed the configuration and, as the
  comment in \<^verbatim>\<open>create\<close> says, may inject data into it: the parameter \<open>pre_create\<close> is
  the configuration as the hook leaves it (the identity when no hook is installed).
  The document \<^verbatim>\<open>module_header + yaml.dump(dict(config), sort_keys=False)\<close> is kept as
  the header and the fields in the order of the dictionary; the codec is opaque.
\<close>



subsection \<open>Resolving, localizing, publishing\<close>


definition activate ::
  "(repo list \<Rightarrow> string list \<Rightarrow> error + module_spec list) \<Rightarrow>
   (module_spec list \<Rightarrow> error + module list) \<Rightarrow>
   state \<Rightarrow> string list \<Rightarrow> error + module list" where
  "activate resolver_resolve activator_activate st requirements =
     (case get_repos st of
        Inl e \<Rightarrow> Inl e
      | Inr rs \<Rightarrow>
          (case resolver_resolve rs requirements of
             Inl e \<Rightarrow> Inl e
           | Inr module_specs \<Rightarrow> activator_activate module_specs))"

text \<open>The first argument of \<^verbatim>\<open>publish\<close>: a requirement string, a \<^verbatim>\<open>ModuleSpec\<close> or
  a \<^verbatim>\<open>Module\<close>.\<close>

datatype publish_arg =
    PublishName string
  | PublishSpec module_spec
  | PublishModule module

definition publish ::
  "(repo list \<Rightarrow> string list \<Rightarrow> error + module_spec list) \<Rightarrow>
   (string \<Rightarrow> module) \<Rightarrow> (repo \<Rightarrow> module \<Rightarrow> bool \<Rightarrow> error + module_spec) \<Rightarrow>
   state \<Rightarrow> publish_arg \<Rightarrow> repo_ref \<Rightarrow> bool \<Rightarrow> error + module_spec" where
  "publish resolver_resolve module_at repo_upload st module_arg to_repo overwrite =
     (case get_repo st to_repo [] of
        Inl e \<Rightarrow> Inl e
      | Inr dest \<Rightarrow>
          (case (case module_arg of
                   PublishName s \<Rightarrow>
                     (case get_repos st of
                        Inl e \<Rightarrow> Inl e
                      | Inr rs \<Rightarrow>
                          (case resolver_resolve rs [s] of
                             Inl e \<Rightarrow> Inl e
                           | Inr [] \<Rightarrow> Inl IndexError
                           | Inr (spec # rest) \<Rightarrow> Inr (Inl spec)))
                 | PublishSpec spec \<Rightarrow> Inr (Inl spec)
                 | PublishModule m \<Rightarrow> Inr (Inr m)) of
             Inl e \<Rightarrow> Inl e
           | Inr resolved \<Rightarrow>
               (case (case resolved of
                        Inl spec \<Rightarrow>
                          if repo_class (spec_repo spec) \<noteq> LocalRepoClass then Inl ValueError
                          else Inr (module_at (spec_path spec))
                      | Inr m \<Rightarrow> Inr m) of
                  Inl e \<Rightarrow> Inl e
                | Inr m \<Rightarrow>
                    (case dest of
                       None \<Rightarrow> Inl AttributeError
                     | Some r \<Rightarrow> repo_upload r m overwrite))))"

subsection \<open>The command line\<close>

text \<open>
  How a command ends: it returns, it calls \<^verbatim>\<open>sys.exit(code)\<close>, or an exception leaves
  it. The terminal output (\<^verbatim>\<open>cli.echo\<close>) is not followed; what the user types at a
  \<^verbatim>\<open>cli.prompt\<close> is an argument.
\<close>

datatype 'a outcome =
    Return 'a
  | Exit int
  | Raise error

text \<open>\<^verbatim>\<open>xs[i]\<close>: a negative index counts from the end; out of range raises.\<close>

definition py_index :: "'a list \<Rightarrow> int \<Rightarrow> 'a outcome" where
  "py_index xs i =
     (let n = int (length xs);
          j = (if i < 0 then n + i else i)
      in if 0 \<le> j \<and> j < n then Return (xs ! nat j) else Raise IndexError)"

text \<open>
  \<^verbatim>\<open>int(s)\<close> on a string: surrounding white space, an optional sign, decimal digits.
  (Python also accepts single underscores between digits and non-ASCII digits; here they
  are a \<^verbatim>\<open>ValueError\<close> like any other text.)
\<close>

definition is_space :: "char \<Rightarrow> bool" where
  "is_space c = (c \<in> set [CHR '' '', CHR 0x09, CHR 0x0A, CHR 0x0B, CHR 0x0C, CHR 0x0D])"

definition is_digit :: "char \<Rightarrow> bool" where
  "is_digit c = (CHR ''0'' \<le> c \<and> c \<le> CHR ''9'')"

definition digits_value :: "string \<Rightarrow> int" where
  "digits_value ds = foldl (\<lambda>acc c. 10 * acc + (of_char c - 48)) 0 ds"

definition strip :: "string \<Rightarrow> string" where
  "strip s = rev (dropWhile is_space (rev (dropWhile is_space s)))"

definition py_int :: "string \<Rightarrow> int option" where
  "py_int s =
     (let t = strip s;
          neg = (t \<noteq> [] \<and> hd t = CHR ''-'');
          ds = (if t \<noteq> [] \<and> (hd t = CHR ''-'' \<or> hd t = CHR ''+'') then tl t else t)
      in if ds \<noteq> [] \<and> list_all is_digit ds
         then Some (if neg then - digits_value ds else digits_value ds)
         else None)"

text \<open>The loop of \<^verbatim>\<open>prompt_for_repo\<close> assigns \<^verbatim>\<open>default\<close> at every repository named
  \<^verbatim>\<open>default_repo_name\<close>: the last such index stays, and none leaves the variable
  unbound.\<close>

fun default_index :: "repo list \<Rightarrow> string \<Rightarrow> nat \<Rightarrow> nat option \<Rightarrow> nat option" where
  "default_index [] default_repo_name i dflt = dflt"
| "default_index (r # rs) default_repo_name i dflt =
     default_index rs default_repo_name (Suc i)
       (if repo_name r = default_repo_name then Some i else dflt)"

definition prompt_for_repo :: "repo list \<Rightarrow> string \<Rightarrow> string \<Rightarrow> string \<Rightarrow> repo outcome" where
  "prompt_for_repo repos message default_repo_name answer =
     (case default_index repos default_repo_name 0 None of
        None \<Rightarrow> Raise UnboundLocalError
      | Some dflt \<Rightarrow>
          if answer = [] then py_index repos (int dflt)
          else
            (case py_int answer of
               None \<Rightarrow> Raise ValueError
             | Some choice \<Rightarrow>
                 if choice > int (length repos) - 1 then Exit 1
                 else py_index repos choice))"

text \<open>\<^verbatim>\<open>Activate.run\<close>: \<open>api_activate\<close> is \<^verbatim>\<open>api.activate(*args.modules)\<close>; the
  subshell that \<^verbatim>\<open>shell.launch\<close> starts is not followed.\<close>

definition Activate_run :: "(string list \<Rightarrow> error + module list) \<Rightarrow> string list \<Rightarrow> unit outcome" where
  "Activate_run api_activate modules =
     (case api_activate modules of
        Inl (ResolveError msg) \<Rightarrow> Exit 1
      | Inl e \<Rightarrow> Raise e
      | Inr activated_modules \<Rightarrow> Return ())"

text \<open>\<^verbatim>\<open>str.lower()\<close> on ASCII letters.\<close>

definition lower :: "string \<Rightarrow> string" where
  "lower s = map (\<lambda>c. if CHR ''A'' \<le> c \<and> c \<le> CHR ''Z'' then char_of (of_char c + (32::nat)) else c) s"

text \<open>
  \<^verbatim>\<open>Remove.run\<close>: \<open>find_module\<close> is \<^verbatim>\<open>from_repo.find_module(args.module)\<close> and
  \<open>api_remove\<close> is \<^verbatim>\<open>api.remove(module, from_repo)\<close>; \<open>repo_answer\<close> and
  \<open>delete_answer\<close> are what the user types at the two prompts. The name \<^verbatim>\<open>click\<close> is
  not defined in \<^verbatim>\<open>__main__.py\<close>, so the branch of a module that is not found raises
  \<^verbatim>\<open>NameError\<close>.
\<close>

definition Remove_run ::
  "(repo \<Rightarrow> string \<Rightarrow> module option) \<Rightarrow> (module \<Rightarrow> repo \<Rightarrow> error + unit) \<Rightarrow> state \<Rightarrow>
     string \<Rightarrow> string option \<Rightarrow> string \<Rightarrow> string \<Rightarrow> unit outcome" where
  "Remove_run find_module api_remove st module_arg from_repo_arg repo_answer delete_answer =
     (let prompted =
            (case get_repos st of
               Inl e \<Rightarrow> Raise e
             | Inr rs \<Rightarrow>
                 (case prompt_for_repo rs ''Choose a repo to remove module from''
                         ''home'' repo_answer of
                    Return r \<Rightarrow> Return (Some r)
                  | Exit c \<Rightarrow> Exit c
                  | Raise e \<Rightarrow> Raise e));
          named = (\<lambda>n. case get_repo st (ByName n) [] of
                          Inl e \<Rightarrow> Raise e
                        | Inr r \<Rightarrow> Return r)
      in case (case from_repo_arg of
                 None \<Rightarrow> prompted
               | Some n \<Rightarrow> if n = [] then prompted else named n) of
           Exit c \<Rightarrow> Exit c
         | Raise e \<Rightarrow> Raise e
         | Return None \<Rightarrow> Raise AttributeError
         | Return (Some from_repo) \<Rightarrow>
             (case find_module from_repo module_arg of
                None \<Rightarrow> Raise NameError
              | Some m \<Rightarrow>
                  if lower delete_answer \<notin> set [''y'', ''yes'', ''yup''] then Exit 1
                  else
                    (case api_remove m from_repo of
                       Inl e \<Rightarrow> Raise e
                     | Inr u \<Rightarrow> Return ())))"

subsection \<open>The resolver\<close>

text \<open>
  Modelled from the spec: the class \<^verbatim>\<open>Resolver\<close> (\<^verbatim>\<open>cpenv/resolver.py\<close>), the
  requirement parser and the repositories' \<^verbatim>\<open>find\<close> are not among the sources; what
  follows is section 4.2 of the spec (and \<^verbatim>\<open>find\<close> of section 4.1). The parser is the
  parameter \<open>parse\<close>, a repository's \<^verbatim>\<open>list()\<close> the parameter \<open>repo_list\<close>.

  A version satisfies a constraint; \<^verbatim>\<open>find(name, constraint)\<close> gives the modules of a
  repository with that name whose version satisfies the constraint, sorted by version
  descending; the best match is the first of them that satisfies the constraint (the
  exact version if present, the highest satisfying version otherwise).
\<close>

definition satisfies :: "version_number \<Rightarrow> constraint \<Rightarrow> bool" where
  "satisfies v c =
     (case c of
        Unconstrained \<Rightarrow> True
      | Exact w \<Rightarrow> v = w
      | AtLeast w \<Rightarrow> w \<le> v
      | AtMost w \<Rightarrow> v \<le> w)"

definition matches_requirement :: "requirement \<Rightarrow> module_spec \<Rightarrow> bool" where
  "matches_requirement q s =
     (spec_name s = req_name q \<and> satisfies (spec_version s) (req_constraint q))"

definition repo_find :: "(repo \<Rightarrow> module_spec list) \<Rightarrow> repo \<Rightarrow> requirement \<Rightarrow> module_spec list" where
  "repo_find repo_list r q =
     rev (sort_key spec_version (filter (matches_requirement q) (repo_list r)))"

definition best_match :: "requirement \<Rightarrow> module_spec list \<Rightarrow> module_spec option" where
  "best_match q found = find (\<lambda>s. satisfies (spec_version s) (req_constraint q)) found"

text \<open>Step 2: the repositories in registration order; one with no match is skipped, the
  first with a match is authoritative.\<close>

fun search_repos ::
  "(repo \<Rightarrow> module_spec list) \<Rightarrow> repo list \<Rightarrow> requirement \<Rightarrow> module_spec option" where
  "search_repos repo_list [] q = None"
| "search_repos repo_list (r # rs) q =
     (case repo_find repo_list r q of
        [] \<Rightarrow> search_repos repo_list rs q
      | s # found \<Rightarrow> best_match q (s # found))"

definition known_names :: "(repo \<Rightarrow> module_spec list) \<Rightarrow> repo list \<Rightarrow> string set" where
  "known_names repo_list repos = (\<Union>r \<in> set repos. spec_name ` set (repo_list r))"

text \<open>
  Steps 1 to 6. The pending requirements are taken in order. \<open>trail\<close> is the active
  expansion path (the names whose requirements are being expanded) and \<open>resolved\<close> the
  modules whose expansion is finished, in the order they finished. A requirement whose
  name is on the trail is a cycle (step 4); one whose name is resolved is dropped when the
  resolved version satisfies it and is a conflict otherwise (step 5); one that no
  repository matches is unresolved (step 3); otherwise the requirements of the match are
  expanded with its name on the trail, and the match is emitted after them (steps 4 and
  6: the result map and its dependency-first emission are the one list \<open>resolved\<close>).
\<close>

function resolve_requirement ::
  "(repo \<Rightarrow> module_spec list) \<Rightarrow> repo list \<Rightarrow> string list \<Rightarrow> module_spec list \<Rightarrow>
     requirement \<Rightarrow> error + module_spec list"
and resolve_pending ::
  "(repo \<Rightarrow> module_spec list) \<Rightarrow> repo list \<Rightarrow> string list \<Rightarrow> module_spec list \<Rightarrow>
     requirement list \<Rightarrow> error + module_spec list"
where
  "resolve_requirement repo_list repos trail resolved q =
     (if req_name q \<in> set trail then Inl (ResolveError (''cycle: '' @ req_name q))
      else
        (case find (\<lambda>s. spec_name s = req_name q) resolved of
           Some s \<Rightarrow>
             if satisfies (spec_version s) (req_constraint q) then Inr resolved
             else Inl (ResolveError (''conflict: '' @ req_name q))
         | None \<Rightarrow>
             (case search_repos repo_list repos q of
                None \<Rightarrow> Inl (ResolveError (''unresolved: '' @ req_name q))
              | Some s \<Rightarrow>
                  (case resolve_pending repo_list repos (req_name q # trail) resolved
                          (spec_requires s) of
                     Inl e \<Rightarrow> Inl e
                   | Inr resolved' \<Rightarrow> Inr (resolved' @ [s])))))"
| "resolve_pending repo_list repos trail resolved [] = Inr resolved"
| "resolve_pending repo_list repos trail resolved (q # pending) =
     (case resolve_requirement repo_list repos trail resolved q of
        Inl e \<Rightarrow> Inl e
      | Inr resolved' \<Rightarrow> resolve_pending repo_list repos trail resolved' pending)"
  by pat_completeness auto

text \<open>The expansion ends: a name put on the trail is the name of a module of some
  repository and was not on the trail, and the repositories hold finitely many names.\<close>

termination
proof (relation "measures
    [\<lambda>x. case x of
            Inl (repo_list, repos, trail, resolved, q) \<Rightarrow>
              card (known_names repo_list repos - set trail)
          | Inr (repo_list, repos, trail, resolved, pending) \<Rightarrow>
              card (known_names repo_list repos - set trail),
     \<lambda>x. case x of
            Inl (repo_list, repos, trail, resolved, q) \<Rightarrow> 0
          | Inr (repo_list, repos, trail, resolved, pending) \<Rightarrow> Suc (length pending)]",
    goal_cases)
  case 1
  show ?case by simp
next
  case (2 repo_list repos trail resolved q s)
  have known: "req_name q \<in> known_names repo_list rs"
    if "search_repos repo_list rs q = Some s" for rs
    using that
  proof (induction rs)
    case Nil
    then show ?case by simp
  next
    case (Cons r rs)
    show ?case
    proof (cases "repo_find repo_list r q")
      case Nil
      with Cons show ?thesis by (simp add: known_names_def)
    next
      case (Cons x xs)
      then have "x \<in> set (repo_find repo_list r q)" by simp
      then have "x \<in> set (repo_list r)" "spec_name x = req_name q"
        by (simp_all add: repo_find_def matches_requirement_def)
      then show ?thesis by (force simp add: known_names_def)
    qed
  qed
  have fin: "finite (known_names repo_list repos)"
    by (simp add: known_names_def)
  have "req_name q \<in> known_names repo_list repos"
    using 2 by (auto dest: known)
  with 2(1) fin have "card (known_names repo_list repos - set (req_name q # trail))
      < card (known_names repo_list repos - set trail)"
    by (intro psubset_card_mono) auto
  then show ?case by simp
next
  case 3
  then show ?case by simp
next
  case 4
  then show ?case by simp
qed

declare resolve_requirement.simps [simp del]

definition Resolver_resolve ::
  "(string \<Rightarrow> requirement) \<Rightarrow> (repo \<Rightarrow> module_spec list) \<Rightarrow> repo list \<Rightarrow> string list \<Rightarrow>
     error + module_spec list" where
  "Resolver_resolve parse repo_list repos requirements =
     resolve_pending repo_list repos [] [] (map parse requirements)"

text \<open>\<^verbatim>\<open>resolve\<close> of \<^verbatim>\<open>api.py\<close>: \<^verbatim>\<open>Resolver(get_repos()).resolve(requirements)\<close>.\<close>

definition resolve ::
  "(string \<Rightarrow> requirement) \<Rightarrow> (repo \<Rightarrow> module_spec list) \<Rightarrow> state \<Rightarrow> string list \<Rightarrow>
     error + module_spec list" where
  "resolve parse repo_list st requirements =
     (case get_repos st of
        Inl e \<Rightarrow> Inl e
      | Inr rs \<Rightarrow> Resolver_resolve parse repo_list rs requirements)"

text \<open>A list of module specs in which every requirement of a module is matched by a module
  strictly before it.\<close>

definition dependency_ordered :: "module_spec list \<Rightarrow> bool" where
  "dependency_ordered ms =
     (\<forall>i<length ms. \<forall>q \<in> set (spec_requires (ms ! i)). \<exists>j<i. matches_requirement q (ms ! j))"

subsection \<open>The activator's environment merge\<close>

text \<open>
  Modelled from the spec: the class \<^verbatim>\<open>Activator\<close> (\<^verbatim>\<open>cpenv/resolver.py\<close>) is not
  among the sources; what follows is step 3 of section 4.5. An operation carries its
  value and, for \<^verbatim>\<open>prepend\<close> and \<^verbatim>\<open>append\<close>, its separator. On a variable that has no
  accumulated value, where the spec names nothing to join with, \<^verbatim>\<open>prepend\<close> and
  \<^verbatim>\<open>append\<close> give the new value alone.
\<close>

fun apply_env_op :: "string option \<Rightarrow> env_op \<Rightarrow> string" where
  "apply_env_op acc (SetValue v) = v"
| "apply_env_op None (Prepend v sep) = v"
| "apply_env_op (Some a) (Prepend v sep) = v @ sep @ a"
| "apply_env_op None (Append v sep) = v"
| "apply_env_op (Some a) (Append v sep) = a @ sep @ v"

definition apply_delta :: "(string \<rightharpoonup> string) \<Rightarrow> string \<times> env_op list \<Rightarrow> (string \<rightharpoonup> string)" where
  "apply_delta env d = foldl (\<lambda>e op. e(fst d \<mapsto> apply_env_op (e (fst d)) op)) env (snd d)"

definition merge_module :: "(string \<rightharpoonup> string) \<Rightarrow> module_spec \<Rightarrow> (string \<rightharpoonup> string)" where
  "merge_module env s = foldl apply_delta env (spec_environment s)"

definition merge_environment :: "(string \<rightharpoonup> string) \<Rightarrow> module_spec list \<Rightarrow> (string \<rightharpoonup> string)" where
  "merge_environment env ms = foldl merge_module env ms"

text \<open>The operations a module declares for one variable, and those of a list of modules,
  in order; and a list of operations applied to an accumulated value.\<close>

definition variable_ops :: "string \<Rightarrow> module_spec \<Rightarrow> env_op list" where
  "variable_ops var s = concat (map snd (filter (\<lambda>d. fst d = var) (spec_environment s)))"

definition apply_ops :: "string option \<Rightarrow> env_op list \<Rightarrow> string option" where
  "apply_ops acc ops = foldl (\<lambda>a op. Some (apply_env_op a op)) acc ops"

subsection \<open>Concrete data for the evaluated statements\<close>

text \<open>A stand-in for \<^verbatim>\<open>utils.normpath\<close> on paths that are already normal: it joins its
  arguments with a slash.\<close>

definition example_normpath :: "string list \<Rightarrow> string" where
  "example_normpath parts = join ''/'' parts"

definition home_repo :: repo where
  "home_repo = LocalRepo ''home'' ''/old/cpenv/modules''"

definition user_repo :: repo where
  "user_repo = LocalRepo ''user'' ''/users/kim/cpenv/modules''"

definition two_repos_state :: state where
  "two_repos_state = (initial_state Map.empty)\<lparr>registry :=
      [''repos'' \<mapsto> Repos [(''home'', home_repo), (''user'', user_repo)]]\<rparr>"

definition module_a_home :: module where
  "module_a_home =
     \<lparr>path = ''/home/modules/a-1.0'', name = ''a'', version = ''1.0'', real_name = ''a-1.0''\<rparr>"

definition module_a_user :: module where
  "module_a_user =
     \<lparr>path = ''/user/modules/a-1.0'', name = ''a'', version = ''1.0'', real_name = ''a-1.0''\<rparr>"

definition module_b :: module where
  "module_b =
     \<lparr>path = ''/home/modules/b-1.0'', name = ''b'', version = ''1.0'', real_name = ''b-1.0''\<rparr>"

definition maya_home :: module where
  "maya_home = Module ''/home/modules/maya-2020'' ''maya'' ''2020''"

definition maya_user :: module where
  "maya_user = Module ''/user/modules/maya-2020'' ''maya'' ''2020''"





text \<open>A stand-in for the requirement parser on the three shapes used below, module specs
  with unconstrained requirements, and what the two repositories list: the home
  repository \<^verbatim>\<open>moduleB\<close> (which requires \<^verbatim>\<open>moduleA\<close>) and \<^verbatim>\<open>ping\<close> and \<^verbatim>\<open>pong\<close>
  (which require each other), the user repository \<^verbatim>\<open>moduleA\<close> in two versions.\<close>

definition example_parse :: "string \<Rightarrow> requirement" where
  "example_parse s =
     (if s = ''moduleA==1.0.0'' then \<lparr>req_name = ''moduleA'', req_constraint = Exact [1, 0, 0]\<rparr>
      else \<lparr>req_name = s, req_constraint = Unconstrained\<rparr>)"

definition example_spec :: "string \<Rightarrow> version_number \<Rightarrow> repo \<Rightarrow> string list \<Rightarrow> module_spec" where
  "example_spec n v r needs =
     \<lparr>spec_name = n, spec_version = v, spec_path = repo_path r @ ''/'' @ n, spec_repo = r,
      spec_requires = map (\<lambda>d. \<lparr>req_name = d, req_constraint = Unconstrained\<rparr>) needs,
      spec_environment = []\<rparr>"

definition moduleA_1 :: module_spec where "moduleA_1 = example_spec ''moduleA'' [1, 0, 0] user_repo []"
definition moduleA_2 :: module_spec where "moduleA_2 = example_spec ''moduleA'' [2, 0, 0] user_repo []"
definition moduleB_1 :: module_spec where "moduleB_1 = example_spec ''moduleB'' [1, 0, 0] home_repo [''moduleA'']"
definition ping_1 :: module_spec where "ping_1 = example_spec ''ping'' [1] home_repo [''pong'']"
definition pong_1 :: module_spec where "pong_1 = example_spec ''pong'' [1] home_repo [''ping'']"

definition example_listing :: "repo \<Rightarrow> module_spec list" where
  "example_listing r =
     (if repo_name r = ''home'' then [moduleB_1, ping_1, pong_1]
      else if repo_name r = ''user'' then [moduleA_1, moduleA_2]
      else [])"

text \<open>Two modules that prepend to \<^verbatim>\<open>PATH\<close>; the second depends on the first.\<close>

definition path_a :: module_spec where
  "path_a = (example_spec ''a'' [1] home_repo [])\<lparr>spec_environment :=
      [(''PATH'', [Prepend ''/a'' '':''])]\<rparr>"

definition path_b :: module_spec where
  "path_b = (example_spec ''b'' [1] home_repo [''a''])\<lparr>spec_environment :=
      [(''PATH'', [Prepend ''/b'' '':''])]\<rparr>"

section \<open>Properties\<close>

subsection \<open>The active-module registry and its variable\<close>

lemma add_active_module_modules:
  "active_modules (add_active_module sep st m) =
     sort_key real_name (if m \<in> set (active_modules st) then active_modules st
                         else active_modules st @ [m])"
  by (simp add: add_active_module_def Let_def)

lemma add_active_module_environ:
  "environ (add_active_module sep st m) =
     (environ st)(''CPENV_ACTIVE_MODULES'' \<mapsto>
        join sep (map real_name (active_modules (add_active_module sep st m))))"
  by (simp add: add_active_module_def Let_def)

lemma remove_active_module_modules:
  "active_modules (remove_active_module sep st m) = remove1 m (active_modules st)"
  by (simp add: remove_active_module_def Let_def remove1_idem)

lemma remove_active_module_environ:
  "environ (remove_active_module sep st m) =
     (environ st)(''CPENV_ACTIVE_MODULES'' \<mapsto>
        join sep (map real_name (active_modules (remove_active_module sep st m))))"
  by (simp add: remove_active_module_def Let_def)

lemma add_active_module_sorted:
  "sorted (map real_name (active_modules (add_active_module sep st m)))"
  by (simp add: add_active_module_modules)

lemma add_active_module_set:
  "set (active_modules (add_active_module sep st m)) = insert m (set (active_modules st))"
  by (auto simp add: add_active_module_modules)

lemma add_active_module_distinct:
  "distinct (active_modules st) \<Longrightarrow> distinct (active_modules (add_active_module sep st m))"
  by (simp add: add_active_module_modules)

lemma remove_active_module_distinct:
  "distinct (active_modules st) \<Longrightarrow> distinct (active_modules (remove_active_module sep st m))"
  by (simp add: remove_active_module_modules)




lemma run_calls_append:
  "run_calls sep st (cs @ ds) = run_calls sep (run_calls sep st cs) ds"
proof (induction cs arbitrary: st)
  case Nil
  show ?case by simp
next
  case (Cons c cs)
  then show ?case by (cases c) simp_all
qed

lemma run_calls_distinct:
  "distinct (active_modules st) \<Longrightarrow> distinct (active_modules (run_calls sep st cs))"
proof (induction cs arbitrary: st)
  case Nil
  then show ?case by simp
next
  case (Cons c cs)
  then show ?case
    by (cases c) (simp_all add: add_active_module_distinct remove_active_module_distinct)
qed

lemma run_calls_subset:
  "set (active_modules (run_calls sep st cs)) \<subseteq> set (active_modules st) \<union> call_module ` set cs"
proof (induction cs arbitrary: st)
  case Nil
  show ?case by simp
next
  case (Cons c cs)
  show ?case
  proof (cases c)
    case (AddActive m)
    have "set (active_modules (run_calls sep (add_active_module sep st m) cs))
        \<subseteq> set (active_modules (add_active_module sep st m)) \<union> call_module ` set cs"
      by (rule Cons.IH)
    then show ?thesis using AddActive by (auto simp add: add_active_module_set)
  next
    case (RemoveActive m)
    have "set (active_modules (run_calls sep (remove_active_module sep st m) cs))
        \<subseteq> set (active_modules (remove_active_module sep st m)) \<union> call_module ` set cs"
      by (rule Cons.IH)
    moreover have "set (active_modules (remove_active_module sep st m)) \<subseteq> set (active_modules st)"
      by (simp add: remove_active_module_modules set_remove1_subset)
    ultimately show ?thesis using RemoveActive by auto
  qed
qed

lemma run_calls_real_names_distinct:
  assumes "distinct (active_modules st)"
    and "inj_on real_name (set (active_modules st) \<union> call_module ` set cs)"
  shows "distinct (map real_name (active_modules (run_calls sep st cs)))"
proof -
  have "inj_on real_name (set (active_modules (run_calls sep st cs)))"
    using assms(2) run_calls_subset[of sep st cs] by (rule inj_on_subset)
  moreover have "distinct (active_modules (run_calls sep st cs))"
    using assms(1) by (rule run_calls_distinct)
  ultimately show ?thesis by (simp add: distinct_map)
qed

lemma run_calls_environ:
  "cs \<noteq> [] \<Longrightarrow>
   environ (run_calls sep st cs) ''CPENV_ACTIVE_MODULES'' =
     Some (join sep (map real_name (active_modules (run_calls sep st cs))))"
proof (induction cs arbitrary: st rule: rev_induct)
  case Nil
  then show ?case by simp
next
  case (snoc c cs)
  show ?case
    by (cases c)
      (simp_all add: run_calls_append add_active_module_environ remove_active_module_environ)
qed

lemma run_adds_set:
  "set (active_modules (run_calls sep st (map AddActive ms))) = set (active_modules st) \<union> set ms"
  by (induction ms arbitrary: st) (auto simp add: add_active_module_set)

lemma run_adds_sorted:
  "ms \<noteq> [] \<Longrightarrow> sorted (map real_name (active_modules (run_calls sep st (map AddActive ms))))"
proof (induction ms arbitrary: st rule: rev_induct)
  case Nil
  then show ?case by simp
next
  case (snoc m ms)
  show ?case by (simp add: run_calls_append add_active_module_sorted)
qed

lemmas example_modules =
  module_a_home_def module_a_user_def module_b_def maya_home_def maya_user_def Module_def
  initial_state_def




text \<open>
  C5 (as stated, refuted). \<^verbatim>\<open>add_active_module\<close> sorts the registry by
  \<^verbatim>\<open>real_name\<close>, so the variable does not keep the order of activation: after
  activating \<^verbatim>\<open>b-1.0\<close> and then \<^verbatim>\<open>a-1.0\<close> it reads \<^verbatim>\<open>a-1.0:b-1.0\<close>.
\<close>

theorem active_modules_variable_not_activation_order:
  "environ (run_calls '':'' (initial_state Map.empty) [AddActive module_b, AddActive module_a_home])
      ''CPENV_ACTIVE_MODULES'' = Some ''a-1.0:b-1.0''
   \<and> join '':'' (map real_name [module_b, module_a_home]) = ''b-1.0:a-1.0''
   \<and> environ (run_calls '':'' (initial_state Map.empty) [AddActive module_b, AddActive module_a_home])
      ''CPENV_ACTIVE_MODULES'' \<noteq> Some (join '':'' (map real_name [module_b, module_a_home]))"
  by (simp add: example_modules add_active_module_def)

text \<open>
  C5 (amended). After every non-empty sequence of \<^verbatim>\<open>add_active_module\<close> and
  \<^verbatim>\<open>remove_active_module\<close> calls (each call rewrites the variable)
  \<^verbatim>\<open>CPENV_ACTIVE_MODULES\<close> holds the \<^verbatim>\<open>real_name\<close>s of the registry's modules, in the
  registry's order, joined by the path separator. After a non-empty sequence of
  activations that order is ascending by \<^verbatim>\<open>real_name\<close> (not the order of activation),
  the modules are those of the registry before and the activated ones, and the list is
  duplicate-free when the registry held no module twice and modules that share a
  \<^verbatim>\<open>real_name\<close> are equal.
\<close>

theorem active_modules_variable_follows_registry:
  "(cs \<noteq> [] \<longrightarrow>
      environ (run_calls sep st cs) ''CPENV_ACTIVE_MODULES'' =
        Some (join sep (map real_name (active_modules (run_calls sep st cs)))))
   \<and> (ms \<noteq> [] \<longrightarrow>
        sorted (map real_name (active_modules (run_calls sep st (map AddActive ms)))))
   \<and> set (active_modules (run_calls sep st (map AddActive ms))) = set (active_modules st) \<union> set ms
   \<and> (distinct (active_modules st) \<and> inj_on real_name (set (active_modules st) \<union> set ms) \<longrightarrow>
        distinct (map real_name (active_modules (run_calls sep st (map AddActive ms)))))"
proof -
  have img: "call_module ` AddActive ` set ms = set ms"
    by (simp add: image_image)
  have "distinct (map real_name (active_modules (run_calls sep st (map AddActive ms))))"
    if "distinct (active_modules st)" "inj_on real_name (set (active_modules st) \<union> set ms)"
    using that run_calls_real_names_distinct[of st "map AddActive ms" sep]
    by (simp add: img)
  then show ?thesis
    by (simp add: run_calls_environ run_adds_sorted run_adds_set)
qed

theorem active_modules_variable_follows_registry_witness:
  "[AddActive module_b, AddActive module_a_home, RemoveActive module_b] \<noteq> []
   \<and> environ (run_calls '':'' (initial_state Map.empty)
        [AddActive module_b, AddActive module_a_home, RemoveActive module_b])
      ''CPENV_ACTIVE_MODULES'' = Some ''a-1.0''
   \<and> active_modules (run_calls '':'' (initial_state Map.empty)
        (map AddActive [module_b, module_a_home])) = [module_a_home, module_b]
   \<and> distinct (map real_name (active_modules (run_calls '':'' (initial_state Map.empty)
        (map AddActive [module_b, module_a_home]))))"
  using active_modules_variable_follows_registry[of
      "[AddActive module_b, AddActive module_a_home, RemoveActive module_b]" "'':''"
      "initial_state Map.empty" "[module_b, module_a_home]"]
  by (simp add: example_modules add_active_module_def remove_active_module_def)

text \<open>
  C6 (as stated, refuted). The variable can hold a \<^verbatim>\<open>real_name\<close> twice: with
  \<^verbatim>\<open>maya-2020\<close> of the home repository active, activating \<^verbatim>\<open>maya-2020\<close> of the user
  repository (another module, another path) leaves \<^verbatim>\<open>maya-2020:maya-2020\<close>.
\<close>

theorem add_active_module_variable_duplicate:
  "environ (add_active_module '':''
        (add_active_module '':'' (initial_state Map.empty) maya_home) maya_user)
      ''CPENV_ACTIVE_MODULES'' = Some ''maya-2020:maya-2020''
   \<and> \<not> distinct (map real_name (active_modules (add_active_module '':''
        (add_active_module '':'' (initial_state Map.empty) maya_home) maya_user)))"
  by (simp add: example_modules add_active_module_def)

text \<open>
  C6 (amended). After every call of \<^verbatim>\<open>add_active_module\<close> the variable
  \<^verbatim>\<open>CPENV_ACTIVE_MODULES\<close> is the \<^verbatim>\<open>real_name\<close>s of the registry joined by the path
  separator, and the registry is sorted ascending by \<^verbatim>\<open>real_name\<close>; the entries are
  duplicate-free when the \<^verbatim>\<open>real_name\<close>s of the registry were before the call and the
  module is in the registry already or its \<^verbatim>\<open>real_name\<close> is new.
\<close>

theorem add_active_module_variable_sorted:
  "environ (add_active_module sep st m) ''CPENV_ACTIVE_MODULES'' =
      Some (join sep (map real_name (active_modules (add_active_module sep st m))))
   \<and> sorted (map real_name (active_modules (add_active_module sep st m)))
   \<and> (distinct (map real_name (active_modules st))
        \<and> (m \<in> set (active_modules st) \<or> real_name m \<notin> real_name ` set (active_modules st))
       \<longrightarrow> distinct (map real_name (active_modules (add_active_module sep st m))))"
proof -
  have "distinct (map real_name (active_modules (add_active_module sep st m)))"
    if d: "distinct (map real_name (active_modules st))"
      and m: "m \<in> set (active_modules st) \<or> real_name m \<notin> real_name ` set (active_modules st)"
  proof (cases "m \<in> set (active_modules st)")
    case True
    with d show ?thesis
      by (simp add: add_active_module_modules distinct_map)
  next
    case False
    with m have "real_name m \<notin> real_name ` set (active_modules st)" by simp
    with d False show ?thesis
      by (auto simp add: add_active_module_modules distinct_map)
  qed
  then show ?thesis
    by (simp add: add_active_module_environ add_active_module_sorted)
qed

theorem add_active_module_variable_sorted_witness:
  "environ (add_active_module '':'' (add_active_module '':'' (initial_state Map.empty) module_b)
        module_a_home) ''CPENV_ACTIVE_MODULES'' = Some ''a-1.0:b-1.0''
   \<and> distinct (map real_name (active_modules (add_active_module '':'' (initial_state Map.empty) module_b)))
   \<and> real_name module_a_home \<notin> real_name `
        set (active_modules (add_active_module '':'' (initial_state Map.empty) module_b))
   \<and> distinct (map real_name (active_modules (add_active_module '':''
        (add_active_module '':'' (initial_state Map.empty) module_b) module_a_home)))"
  using add_active_module_variable_sorted[of "'':''"
      "add_active_module '':'' (initial_state Map.empty) module_b" module_a_home]
  by (simp add: example_modules add_active_module_def)

subsection \<open>The home path and the repository registry\<close>

lemma set_home_path_environ:
  "environ (snd (set_home_path np dflt st p)) ''CPENV_HOME'' = Some (np [p])"
  by (simp add: set_home_path_def Let_def update_repo_def init_home_path_def
      ensure_path_exists_def)

text \<open>\<^verbatim>\<open>update_repo\<close> writes the key \<^verbatim>\<open>'home'\<close> of \<^verbatim>\<open>_registry\<close>; the registered
  repositories are under its key \<^verbatim>\<open>'repos'\<close>, which no step of \<^verbatim>\<open>set_home_path\<close>
  touches.\<close>

lemma set_home_path_get_repos:
  "get_repos (snd (set_home_path np dflt st p)) = get_repos st"
  by (simp add: set_home_path_def Let_def update_repo_def init_home_path_def
      ensure_path_exists_def get_repos_def LocalRepo_def)

lemma set_home_path_get_repo:
  "get_repo (snd (set_home_path np dflt st p)) ref query = get_repo st ref query"
  by (cases ref) (simp_all add: get_repo_def set_home_path_get_repos)

lemmas example_repos =
  two_repos_state_def initial_state_def home_repo_def user_repo_def LocalRepo_def
  example_normpath_def

text \<open>
  C7 (the code differs from the claim). With a repository \<^verbatim>\<open>home\<close> rooted at
  \<^verbatim>\<open>/old/cpenv/modules\<close> registered, \<^verbatim>\<open>set_home_path('/new/cpenv')\<close> sets
  \<^verbatim>\<open>CPENV_HOME\<close> to the new path, but the repository that \<^verbatim>\<open>get_repo('home')\<close> returns
  and \<^verbatim>\<open>get_repos()\<close> contains is still the old one: the new \<^verbatim>\<open>LocalRepo\<close> went to
  \<^verbatim>\<open>_registry['home']\<close>, not to \<^verbatim>\<open>_registry['repos']['home']\<close>.
\<close>

theorem set_home_path_keeps_old_home_repo:
  "environ (snd (set_home_path example_normpath ''/usr/share/cpenv'' two_repos_state ''/new/cpenv''))
      ''CPENV_HOME'' = Some ''/new/cpenv''
   \<and> registry (snd (set_home_path example_normpath ''/usr/share/cpenv'' two_repos_state
        ''/new/cpenv'')) ''home'' = Some (RepoValue (LocalRepo ''home'' ''/new/cpenv/modules''))
   \<and> get_repo (snd (set_home_path example_normpath ''/usr/share/cpenv'' two_repos_state
        ''/new/cpenv'')) (ByName ''home'') [] = Inr (Some (LocalRepo ''home'' ''/old/cpenv/modules''))
   \<and> get_repos (snd (set_home_path example_normpath ''/usr/share/cpenv'' two_repos_state
        ''/new/cpenv'')) = Inr [LocalRepo ''home'' ''/old/cpenv/modules'', user_repo]"
  by (simp add: set_home_path_def Let_def update_repo_def init_home_path_def
      ensure_path_exists_def get_repos_def get_repo_def repo_matches_def repo_getattr_def
      get_home_modules_path_def get_home_path_def example_repos)









subsection \<open>Creating a module\<close>







subsection \<open>The command line\<close>

lemmas int_parsing = py_int_def strip_def is_space_def is_digit_def digits_value_def

lemma prompt_for_repo_too_large:
  assumes "default_index repos default_repo_name 0 None = Some d"
    and "py_int answer = Some choice" and "answer \<noteq> []"
    and "choice > int (length repos) - 1"
  shows "prompt_for_repo repos message default_repo_name answer = Exit 1"
  using assms by (simp add: prompt_for_repo_def)

lemma Activate_run_ResolveError:
  "api_activate modules = Inl (ResolveError msg) \<Longrightarrow> Activate_run api_activate modules = Exit 1"
  by (simp add: Activate_run_def)

lemma Remove_run_declined:
  assumes "get_repo st (ByName n) [] = Inr (Some r)" and "n \<noteq> []"
    and "find_module r module_arg = Some m"
    and "lower delete_answer \<notin> set [''y'', ''yes'', ''yup'']"
  shows "Remove_run find_module api_remove st module_arg (Some n) repo_answer delete_answer = Exit 1"
  using assms by (simp add: Remove_run_def Let_def)

text \<open>
  C8 (the code differs from the claim). \<^verbatim>\<open>prompt_for_repo\<close> lists the repositories as
  \<^verbatim>\<open>[0]\<close> and \<^verbatim>\<open>[1]\<close>; the answer \<^verbatim>\<open>-1\<close> names none of them, yet the only test is
  \<^verbatim>\<open>choice > len(repos) - 1\<close>, so the function does not exit with code 1 but returns
  \<^verbatim>\<open>repos[-1]\<close>, the last repository. The answer \<^verbatim>\<open>2\<close> does exit with code 1.
\<close>

theorem prompt_for_repo_accepts_negative_choice:
  "prompt_for_repo [home_repo, user_repo] ''Choose a repo to publish to'' ''home'' ''-1''
     = Return user_repo
   \<and> prompt_for_repo [home_repo, user_repo] ''Choose a repo to publish to'' ''home'' ''2''
     = Exit 1"
  by (simp add: prompt_for_repo_def int_parsing py_index_def home_repo_def user_repo_def
      LocalRepo_def)

subsection \<open>The resolver\<close>

lemma search_repos_matches:
  "search_repos repo_list repos q = Some s \<Longrightarrow>
     matches_requirement q s \<and> (\<exists>r \<in> set repos. s \<in> set (repo_list r))"
proof (induction repos)
  case Nil
  then show ?case by simp
next
  case (Cons r rs)
  show ?case
  proof (cases "repo_find repo_list r q")
    case Nil
    with Cons show ?thesis by auto
  next
    case (Cons x xs)
    with Cons.prems have "best_match q (repo_find repo_list r q) = Some s" by simp
    then have "s \<in> set (repo_find repo_list r q)"
      by (auto simp add: best_match_def find_Some_iff)
    then show ?thesis
      by (auto simp add: repo_find_def)
  qed
qed

lemma resolve_extends:
  "resolve_requirement repo_list repos trail resolved q = Inr out \<Longrightarrow>
     \<exists>new. out = resolved @ new \<and> (\<forall>s \<in> set new. spec_name s \<notin> set trail)"
  "resolve_pending repo_list repos trail resolved pending = Inr out \<Longrightarrow>
     \<exists>new. out = resolved @ new \<and> (\<forall>s \<in> set new. spec_name s \<notin> set trail)"
proof (induction repo_list repos trail resolved q and repo_list repos trail resolved pending
    arbitrary: out and out rule: resolve_requirement_resolve_pending.induct)
  case (1 repo_list repos trail resolved q)
  from "1.prems" have notin: "req_name q \<notin> set trail"
    by (auto simp add: resolve_requirement.simps split: if_splits)
  show ?case
  proof (cases "find (\<lambda>s. spec_name s = req_name q) resolved")
    case (Some s)
    with "1.prems" notin have "out = resolved"
      by (auto simp add: resolve_requirement.simps split: if_splits)
    then show ?thesis by simp
  next
    case None
    with "1.prems" notin obtain s resolved' where
      s: "search_repos repo_list repos q = Some s"
      and r: "resolve_pending repo_list repos (req_name q # trail) resolved (spec_requires s) = Inr resolved'"
      and o: "out = resolved' @ [s]"
      by (auto simp add: resolve_requirement.simps split: option.splits sum.splits)
    from "1.IH"[OF notin None s r] obtain new where
      n: "resolved' = resolved @ new" "\<forall>x \<in> set new. spec_name x \<notin> set (req_name q # trail)"
      by blast
    from s have "spec_name s = req_name q"
      by (auto dest: search_repos_matches simp add: matches_requirement_def)
    with notin n o show ?thesis
      by (intro exI[of _ "new @ [s]"]) auto
  qed
next
  case (2 repo_list repos trail resolved)
  then show ?case by simp
next
  case (3 repo_list repos trail resolved q pending)
  from "3.prems" obtain resolved' where
    a: "resolve_requirement repo_list repos trail resolved q = Inr resolved'"
    and b: "resolve_pending repo_list repos trail resolved' pending = Inr out"
    by (auto split: sum.splits)
  from "3.IH"(1)[OF a] obtain new1 where
    n1: "resolved' = resolved @ new1" "\<forall>s \<in> set new1. spec_name s \<notin> set trail"
    by blast
  from "3.IH"(2)[OF a b] obtain new2 where
    n2: "out = resolved' @ new2" "\<forall>s \<in> set new2. spec_name s \<notin> set trail"
    by blast
  from n1 n2 show ?case
    by (intro exI[of _ "new1 @ new2"]) auto
qed

text \<open>The three ways a requirement is resolved.\<close>

lemma resolve_requirement_cases:
  assumes "resolve_requirement repo_list repos trail resolved q = Inr out"
  obtains (kept) s where "req_name q \<notin> set trail"
      "find (\<lambda>s. spec_name s = req_name q) resolved = Some s"
      "satisfies (spec_version s) (req_constraint q)" "out = resolved"
  | (found) s resolved' where "req_name q \<notin> set trail"
      "find (\<lambda>s. spec_name s = req_name q) resolved = None"
      "search_repos repo_list repos q = Some s"
      "resolve_pending repo_list repos (req_name q # trail) resolved (spec_requires s) = Inr resolved'"
      "out = resolved' @ [s]"
  using assms
  by (auto simp add: resolve_requirement.simps split: if_splits option.splits sum.splits)

lemma resolve_pending_Cons:
  assumes "resolve_pending repo_list repos trail resolved (q # pending) = Inr out"
  obtains resolved' where "resolve_requirement repo_list repos trail resolved q = Inr resolved'"
    "resolve_pending repo_list repos trail resolved' pending = Inr out"
  using assms by (auto split: sum.splits)

lemma resolve_provides:
  "resolve_requirement repo_list repos trail resolved q = Inr out \<Longrightarrow>
     \<exists>s \<in> set out. matches_requirement q s"
  "resolve_pending repo_list repos trail resolved pending = Inr out \<Longrightarrow>
     \<forall>q \<in> set pending. \<exists>s \<in> set out. matches_requirement q s"
proof (induction repo_list repos trail resolved q and repo_list repos trail resolved pending
    arbitrary: out and out rule: resolve_requirement_resolve_pending.induct)
  case (1 repo_list repos trail resolved q)
  from "1.prems" show ?case
  proof (cases rule: resolve_requirement_cases)
    case (kept s)
    then have "s \<in> set resolved" "spec_name s = req_name q"
      by (auto simp add: find_Some_iff)
    with kept show ?thesis by (auto simp add: matches_requirement_def)
  next
    case (found s resolved')
    then show ?thesis by (auto dest: search_repos_matches)
  qed
next
  case (2 repo_list repos trail resolved)
  show ?case by simp
next
  case (3 repo_list repos trail resolved q pending)
  from "3.prems" obtain resolved' where
    a: "resolve_requirement repo_list repos trail resolved q = Inr resolved'"
    and b: "resolve_pending repo_list repos trail resolved' pending = Inr out"
    by (rule resolve_pending_Cons)
  from "3.IH"(1)[OF a] obtain s where s: "s \<in> set resolved'" "matches_requirement q s"
    by blast
  from resolve_extends(2)[OF b] s(1) have "s \<in> set out" by auto
  with s(2) "3.IH"(2)[OF a b] show ?case by auto
qed

lemma dependency_ordered_snoc:
  assumes "dependency_ordered ms" and "\<forall>q \<in> set (spec_requires s). \<exists>x \<in> set ms. matches_requirement q x"
  shows "dependency_ordered (ms @ [s])"
  unfolding dependency_ordered_def
proof (intro allI impI ballI)
  fix i q
  assume i: "i < length (ms @ [s])" and q: "q \<in> set (spec_requires ((ms @ [s]) ! i))"
  show "\<exists>j<i. matches_requirement q ((ms @ [s]) ! j)"
  proof (cases "i < length ms")
    case True
    with q have "q \<in> set (spec_requires (ms ! i))" by (simp add: nth_append)
    with assms(1) True obtain j where "j < i" "matches_requirement q (ms ! j)"
      by (auto simp add: dependency_ordered_def)
    with True show ?thesis by (auto simp add: nth_append intro!: exI[of _ j])
  next
    case False
    with i have e: "i = length ms" by simp
    with q have "q \<in> set (spec_requires s)" by simp
    with assms(2) obtain x where "x \<in> set ms" "matches_requirement q x" by blast
    then obtain j where "j < length ms" "matches_requirement q (ms ! j)"
      by (auto simp add: in_set_conv_nth)
    with e show ?thesis by (auto simp add: nth_append intro!: exI[of _ j])
  qed
qed

lemma resolve_dependency_ordered:
  "resolve_requirement repo_list repos trail resolved q = Inr out \<Longrightarrow>
     dependency_ordered resolved \<Longrightarrow> dependency_ordered out"
  "resolve_pending repo_list repos trail resolved pending = Inr out \<Longrightarrow>
     dependency_ordered resolved \<Longrightarrow> dependency_ordered out"
proof (induction repo_list repos trail resolved q and repo_list repos trail resolved pending
    arbitrary: out and out rule: resolve_requirement_resolve_pending.induct)
  case (1 repo_list repos trail resolved q)
  from "1.prems"(1) show ?case
  proof (cases rule: resolve_requirement_cases)
    case (kept s)
    with "1.prems"(2) show ?thesis by simp
  next
    case (found s resolved')
    have "dependency_ordered resolved'"
      using found(1-4) "1.prems"(2) by (rule "1.IH")
    moreover have "\<forall>q \<in> set (spec_requires s). \<exists>x \<in> set resolved'. matches_requirement q x"
      using found(4) by (rule resolve_provides(2))
    ultimately show ?thesis
      using found(5) by (simp add: dependency_ordered_snoc)
  qed
next
  case (2 repo_list repos trail resolved)
  then show ?case by simp
next
  case (3 repo_list repos trail resolved q pending)
  from "3.prems"(1) obtain resolved' where
    a: "resolve_requirement repo_list repos trail resolved q = Inr resolved'"
    and b: "resolve_pending repo_list repos trail resolved' pending = Inr out"
    by (rule resolve_pending_Cons)
  have "dependency_ordered resolved'"
    using a "3.prems"(2) by (rule "3.IH"(1))
  with a b show ?case by (rule "3.IH"(2))
qed

lemma resolve_distinct_names:
  "resolve_requirement repo_list repos trail resolved q = Inr out \<Longrightarrow>
     distinct (map spec_name resolved) \<Longrightarrow> distinct (map spec_name out)"
  "resolve_pending repo_list repos trail resolved pending = Inr out \<Longrightarrow>
     distinct (map spec_name resolved) \<Longrightarrow> distinct (map spec_name out)"
proof (induction repo_list repos trail resolved q and repo_list repos trail resolved pending
    arbitrary: out and out rule: resolve_requirement_resolve_pending.induct)
  case (1 repo_list repos trail resolved q)
  from "1.prems"(1) show ?case
  proof (cases rule: resolve_requirement_cases)
    case (kept s)
    with "1.prems"(2) show ?thesis by simp
  next
    case (found s resolved')
    have d: "distinct (map spec_name resolved')"
      using found(1-4) "1.prems"(2) by (rule "1.IH")
    from resolve_extends(2)[OF found(4)] obtain new where
      n: "resolved' = resolved @ new" "\<forall>x \<in> set new. spec_name x \<notin> set (req_name q # trail)"
      by blast
    have nm: "spec_name s = req_name q"
      using found(3) by (auto dest: search_repos_matches simp add: matches_requirement_def)
    have "req_name q \<notin> spec_name ` set resolved"
      using found(2) by (auto simp add: find_None_iff)
    moreover have "req_name q \<notin> spec_name ` set new"
      using n(2) by auto
    ultimately have "spec_name s \<notin> spec_name ` set resolved'"
      using n(1) nm by auto
    with d found(5) show ?thesis by simp
  qed
next
  case (2 repo_list repos trail resolved)
  then show ?case by simp
next
  case (3 repo_list repos trail resolved q pending)
  from "3.prems"(1) obtain resolved' where
    a: "resolve_requirement repo_list repos trail resolved q = Inr resolved'"
    and b: "resolve_pending repo_list repos trail resolved' pending = Inr out"
    by (rule resolve_pending_Cons)
  have "distinct (map spec_name resolved')"
    using a "3.prems"(2) by (rule "3.IH"(1))
  with a b show ?case by (rule "3.IH"(2))
qed

lemma resolve_from_repos:
  "resolve_requirement repo_list repos trail resolved q = Inr out \<Longrightarrow>
     \<forall>s \<in> set out. s \<in> set resolved \<or> (\<exists>r \<in> set repos. s \<in> set (repo_list r))"
  "resolve_pending repo_list repos trail resolved pending = Inr out \<Longrightarrow>
     \<forall>s \<in> set out. s \<in> set resolved \<or> (\<exists>r \<in> set repos. s \<in> set (repo_list r))"
proof (induction repo_list repos trail resolved q and repo_list repos trail resolved pending
    arbitrary: out and out rule: resolve_requirement_resolve_pending.induct)
  case (1 repo_list repos trail resolved q)
  from "1.prems"(1) show ?case
  proof (cases rule: resolve_requirement_cases)
    case (kept s)
    then show ?thesis by simp
  next
    case (found s resolved')
    have "\<forall>x \<in> set resolved'. x \<in> set resolved \<or> (\<exists>r \<in> set repos. x \<in> set (repo_list r))"
      using found(1-4) by (rule "1.IH")
    moreover have "\<exists>r \<in> set repos. s \<in> set (repo_list r)"
      using found(3) by (auto dest: search_repos_matches)
    ultimately show ?thesis using found(5) by auto
  qed
next
  case (2 repo_list repos trail resolved)
  then show ?case by simp
next
  case (3 repo_list repos trail resolved q pending)
  from "3.prems"(1) obtain resolved' where
    a: "resolve_requirement repo_list repos trail resolved q = Inr resolved'"
    and b: "resolve_pending repo_list repos trail resolved' pending = Inr out"
    by (rule resolve_pending_Cons)
  from "3.IH"(1)[OF a] "3.IH"(2)[OF a b] show ?case by blast
qed

lemma resolve_error_kind:
  "resolve_requirement repo_list repos trail resolved q = Inl e \<Longrightarrow> \<exists>msg. e = ResolveError msg"
  "resolve_pending repo_list repos trail resolved pending = Inl e \<Longrightarrow> \<exists>msg. e = ResolveError msg"
proof (induction repo_list repos trail resolved q and repo_list repos trail resolved pending
    arbitrary: e and e rule: resolve_requirement_resolve_pending.induct)
  case (1 repo_list repos trail resolved q)
  from "1.prems" "1.IH" show ?case
    by (auto simp add: resolve_requirement.simps split: if_splits option.splits sum.splits)
next
  case (2 repo_list repos trail resolved)
  then show ?case by simp
next
  case (3 repo_list repos trail resolved q pending)
  from "3.prems" "3.IH" show ?case
    by (auto split: sum.splits)
qed








lemma Resolver_resolve_error_kind:
  "Resolver_resolve parse repo_list repos requirements = Inl e \<Longrightarrow> \<exists>msg. e = ResolveError msg"
  unfolding Resolver_resolve_def by (rule resolve_error_kind(2))



lemma no_mutual_requirement:
  assumes ord: "dependency_ordered ms" and dist: "distinct (map spec_name ms)"
    and a: "a \<in> set ms" and b: "b \<in> set ms"
    and qa: "qa \<in> set (spec_requires a)" "req_name qa = spec_name b"
    and qb: "qb \<in> set (spec_requires b)" "req_name qb = spec_name a"
  shows False
proof -
  have before: "j < i"
    if "i < length ms" "j < length ms" "q \<in> set (spec_requires (ms ! i))"
      "req_name q = spec_name (ms ! j)" for i j q
  proof -
    from ord that(1,3) obtain k where k: "k < i" "matches_requirement q (ms ! k)"
      by (auto simp add: dependency_ordered_def)
    then have "spec_name (ms ! k) = spec_name (ms ! j)"
      using that(4) by (simp add: matches_requirement_def)
    moreover have "k < length ms" using k(1) that(1) by simp
    ultimately have "k = j"
      using dist that(2) by (auto simp add: distinct_conv_nth)
    with k(1) show ?thesis by simp
  qed
  from a obtain i where i: "i < length ms" "ms ! i = a" by (auto simp add: in_set_conv_nth)
  from b obtain j where j: "j < length ms" "ms ! j = b" by (auto simp add: in_set_conv_nth)
  have "j < i" using i j qa by (intro before[of i j qa]) auto
  moreover have "i < j" using i j qb by (intro before[of j i qb]) auto
  ultimately show False by simp
qed

lemma dependency_ordered_Nil: "dependency_ordered []"
  by (simp add: dependency_ordered_def)

lemma Resolver_resolve_ordered:
  assumes "Resolver_resolve parse repo_list repos requirements = Inr out"
  shows "dependency_ordered out" and "distinct (map spec_name out)"
    and "\<forall>s \<in> set out. \<exists>r \<in> set repos. s \<in> set (repo_list r)"
    and "\<forall>s \<in> set requirements. \<exists>m \<in> set out. matches_requirement (parse s) m"
proof -
  from assms have r: "resolve_pending repo_list repos [] [] (map parse requirements) = Inr out"
    by (simp add: Resolver_resolve_def)
  show "dependency_ordered out"
    using r dependency_ordered_Nil by (rule resolve_dependency_ordered(2))
  show "distinct (map spec_name out)"
    using r by (rule resolve_distinct_names(2)) simp
  show "\<forall>s \<in> set out. \<exists>r \<in> set repos. s \<in> set (repo_list r)"
    using resolve_from_repos(2)[OF r] by simp
  show "\<forall>s \<in> set requirements. \<exists>m \<in> set out. matches_requirement (parse s) m"
    using resolve_provides(2)[OF r] by simp
qed

lemma Resolver_resolve_cycle:
  assumes s: "s \<in> set requirements"
    and ab: "\<forall>r \<in> set repos. \<forall>a \<in> set (repo_list r). spec_name a = req_name (parse s) \<longrightarrow>
               (\<exists>q \<in> set (spec_requires a). req_name q = other)"
    and ba: "\<forall>r \<in> set repos. \<forall>b \<in> set (repo_list r). spec_name b = other \<longrightarrow>
               (\<exists>q \<in> set (spec_requires b). req_name q = req_name (parse s))"
  shows "\<exists>msg. Resolver_resolve parse repo_list repos requirements = Inl (ResolveError msg)"
proof (cases "Resolver_resolve parse repo_list repos requirements")
  case (Inl e)
  then show ?thesis using Resolver_resolve_error_kind[OF Inl] by simp
next
  case (Inr out)
  note facts = Resolver_resolve_ordered[OF Inr]
  from facts(4) s obtain a where a: "a \<in> set out" "matches_requirement (parse s) a"
    by blast
  then have na: "spec_name a = req_name (parse s)"
    by (simp add: matches_requirement_def)
  from facts(3) a(1) obtain r where "r \<in> set repos" "a \<in> set (repo_list r)" by blast
  with ab na obtain qa where qa: "qa \<in> set (spec_requires a)" "req_name qa = other" by blast
  from a(1) obtain i where i: "i < length out" "out ! i = a"
    by (auto simp add: in_set_conv_nth)
  with facts(1) qa(1) obtain j where j: "j < i" "matches_requirement qa (out ! j)"
    by (auto simp add: dependency_ordered_def)
  define b where "b = out ! j"
  have b: "b \<in> set out" "spec_name b = other"
    using j i qa(2) by (auto simp add: b_def matches_requirement_def)
  from facts(3) b(1) obtain r' where "r' \<in> set repos" "b \<in> set (repo_list r')" by blast
  with ba b(2) obtain qb where qb: "qb \<in> set (spec_requires b)" "req_name qb = req_name (parse s)"
    by blast
  have False
    using facts(1) facts(2) a(1) b(1) qa(1) _ qb(1)
  proof (rule no_mutual_requirement)
    show "req_name qa = spec_name b" using qa(2) b(2) by simp
    show "req_name qb = spec_name a" using qb(2) na by simp
  qed
  then show ?thesis ..
qed

lemma resolve_with_repos:
  "get_repos st = Inr rs \<Longrightarrow>
     resolve parse repo_list st requirements = Resolver_resolve parse repo_list rs requirements"
  by (simp add: resolve_def)

lemma resolve_Inr_repos:
  "resolve parse repo_list st requirements = Inr out \<Longrightarrow>
     \<exists>rs. get_repos st = Inr rs \<and> Resolver_resolve parse repo_list rs requirements = Inr out"
  by (auto simp add: resolve_def split: sum.splits)



lemmas example_specs = example_parse_def example_spec_def moduleA_1_def moduleA_2_def moduleB_1_def
  ping_1_def pong_1_def example_listing_def

lemmas resolver_eval = resolve_def Resolver_resolve_def resolve_requirement.simps get_repos_def
  repo_find_def best_match_def matches_requirement_def satisfies_def



text \<open>
  C2. The sequence that \<^verbatim>\<open>resolve\<close> returns is dependency-ordered: for every module
  of it and every requirement in its \<^verbatim>\<open>requires\<close>, a module with the required name
  whose version satisfies the requirement stands strictly before it; no name occurs
  twice, so that module is the one resolved for the requirement; and no two modules of
  the sequence require each other. When every module named as the requirement \<open>s\<close> names
  requires \<open>other\<close> and every module named \<open>other\<close> requires the name of \<open>s\<close> (a cycle,
  also of one module that requires itself), \<^verbatim>\<open>resolve\<close> of any requirements among
  which \<open>s\<close> is raises \<^verbatim>\<open>ResolveError\<close>.
\<close>

theorem resolve_output_dependency_ordered:
  "(resolve parse repo_list st requirements = Inr out \<longrightarrow>
      (\<forall>i<length out. \<forall>q \<in> set (spec_requires (out ! i)).
          \<exists>j<i. spec_name (out ! j) = req_name q
               \<and> satisfies (spec_version (out ! j)) (req_constraint q))
      \<and> distinct (map spec_name out)
      \<and> (\<forall>a \<in> set out. \<forall>b \<in> set out.
           \<not> ((\<exists>q \<in> set (spec_requires a). req_name q = spec_name b)
              \<and> (\<exists>q \<in> set (spec_requires b). req_name q = spec_name a))))
   \<and> (get_repos st = Inr rs \<and> s \<in> set requirements
      \<and> (\<forall>r \<in> set rs. \<forall>a \<in> set (repo_list r). spec_name a = req_name (parse s) \<longrightarrow>
             (\<exists>q \<in> set (spec_requires a). req_name q = other))
      \<and> (\<forall>r \<in> set rs. \<forall>b \<in> set (repo_list r). spec_name b = other \<longrightarrow>
             (\<exists>q \<in> set (spec_requires b). req_name q = req_name (parse s)))
     \<longrightarrow> (\<exists>msg. resolve parse repo_list st requirements = Inl (ResolveError msg)))"
proof (intro conjI impI)
  assume "resolve parse repo_list st requirements = Inr out"
  then obtain rs where "Resolver_resolve parse repo_list rs requirements = Inr out"
    by (auto dest: resolve_Inr_repos)
  note facts = Resolver_resolve_ordered[OF this]
  from facts(1) show "\<forall>i<length out. \<forall>q \<in> set (spec_requires (out ! i)).
          \<exists>j<i. spec_name (out ! j) = req_name q
               \<and> satisfies (spec_version (out ! j)) (req_constraint q)"
    by (simp add: dependency_ordered_def matches_requirement_def)
  from facts(2) show "distinct (map spec_name out)" .
  show "\<forall>a \<in> set out. \<forall>b \<in> set out.
           \<not> ((\<exists>q \<in> set (spec_requires a). req_name q = spec_name b)
              \<and> (\<exists>q \<in> set (spec_requires b). req_name q = spec_name a))"
    using no_mutual_requirement[OF facts(1) facts(2)] by blast
next
  assume h: "get_repos st = Inr rs \<and> s \<in> set requirements
      \<and> (\<forall>r \<in> set rs. \<forall>a \<in> set (repo_list r). spec_name a = req_name (parse s) \<longrightarrow>
             (\<exists>q \<in> set (spec_requires a). req_name q = other))
      \<and> (\<forall>r \<in> set rs. \<forall>b \<in> set (repo_list r). spec_name b = other \<longrightarrow>
             (\<exists>q \<in> set (spec_requires b). req_name q = req_name (parse s)))"
  then have "\<exists>msg. Resolver_resolve parse repo_list rs requirements = Inl (ResolveError msg)"
    by (intro Resolver_resolve_cycle[of s requirements rs repo_list parse other]) simp_all
  with h show "\<exists>msg. resolve parse repo_list st requirements = Inl (ResolveError msg)"
    by (simp add: resolve_with_repos)
qed

theorem resolve_output_dependency_ordered_witness:
  "resolve example_parse example_listing two_repos_state [''moduleB''] = Inr [moduleA_2, moduleB_1]
   \<and> distinct (map spec_name [moduleA_2, moduleB_1])
   \<and> get_repos two_repos_state = Inr [home_repo, user_repo]
   \<and> (\<exists>msg. resolve example_parse example_listing two_repos_state [''ping'']
          = Inl (ResolveError msg))"
proof -
  have a: "resolve example_parse example_listing two_repos_state [''moduleB'']
      = Inr [moduleA_2, moduleB_1]"
    by (simp add: resolver_eval example_specs example_repos)
  have d: "get_repos two_repos_state = Inr [home_repo, user_repo]"
    by (simp add: get_repos_def two_repos_state_def initial_state_def)
  have p: "\<forall>r \<in> set [home_repo, user_repo]. \<forall>a \<in> set (example_listing r).
      spec_name a = req_name (example_parse ''ping'') \<longrightarrow>
        (\<exists>q \<in> set (spec_requires a). req_name q = ''pong'')"
    by (simp add: example_specs example_repos)
  have q: "\<forall>r \<in> set [home_repo, user_repo]. \<forall>b \<in> set (example_listing r).
      spec_name b = ''pong'' \<longrightarrow>
        (\<exists>q \<in> set (spec_requires b). req_name q = req_name (example_parse ''ping''))"
    by (simp add: example_specs example_repos)
  have "distinct (map spec_name [moduleA_2, moduleB_1])"
    using a resolve_output_dependency_ordered[of example_parse example_listing two_repos_state "[''moduleB'']"
        "[moduleA_2, moduleB_1]"]
    by simp
  moreover have "\<exists>msg. resolve example_parse example_listing two_repos_state [''ping'']
          = Inl (ResolveError msg)"
    using d p q resolve_output_dependency_ordered[of example_parse example_listing two_repos_state "[''ping'']" "[]"
        "[home_repo, user_repo]" "''ping''" "''pong''"]
    by simp
  ultimately show ?thesis using a d by simp
qed

subsection \<open>The activator's environment merge\<close>

lemma apply_ops_append: "apply_ops acc (xs @ ys) = apply_ops (apply_ops acc xs) ys"
  by (simp add: apply_ops_def)

lemma apply_delta_same:
  "apply_delta env (var, ops) var = apply_ops (env var) ops"
proof (induction ops arbitrary: env)
  case Nil
  show ?case by (simp add: apply_delta_def apply_ops_def)
next
  case (Cons op ops)
  have "apply_delta env (var, op # ops) var =
      apply_delta (env(var \<mapsto> apply_env_op (env var) op)) (var, ops) var"
    by (simp add: apply_delta_def)
  also have "\<dots> = apply_ops (Some (apply_env_op (env var) op)) ops"
    by (simp add: Cons.IH)
  also have "\<dots> = apply_ops (env var) (op # ops)"
    by (simp add: apply_ops_def)
  finally show ?case .
qed

lemma apply_delta_other:
  "x \<noteq> var \<Longrightarrow> apply_delta env (var, ops) x = env x"
proof (induction ops arbitrary: env)
  case Nil
  show ?case by (simp add: apply_delta_def)
next
  case (Cons op ops)
  have "apply_delta env (var, op # ops) x =
      apply_delta (env(var \<mapsto> apply_env_op (env var) op)) (var, ops) x"
    by (simp add: apply_delta_def)
  also have "\<dots> = (env(var \<mapsto> apply_env_op (env var) op)) x"
    using Cons.prems by (rule Cons.IH)
  also have "\<dots> = env x"
    using Cons.prems by simp
  finally show ?case .
qed

lemma foldl_apply_delta:
  "foldl apply_delta env ds var =
     apply_ops (env var) (concat (map snd (filter (\<lambda>d. fst d = var) ds)))"
proof (induction ds arbitrary: env)
  case Nil
  show ?case by (simp add: apply_ops_def)
next
  case (Cons d ds)
  obtain x ops where d: "d = (x, ops)" by (cases d)
  have step: "foldl apply_delta env (d # ds) var =
      apply_ops (apply_delta env d var) (concat (map snd (filter (\<lambda>d. fst d = var) ds)))"
    by (simp add: Cons.IH)
  show ?case
  proof (cases "x = var")
    case True
    with step d show ?thesis
      by (simp add: apply_delta_same apply_ops_append)
  next
    case False
    then have "apply_delta env d var = env var"
      unfolding d by (intro apply_delta_other) simp
    with step d False show ?thesis by simp
  qed
qed

lemma merge_module_var:
  "merge_module env s var = apply_ops (env var) (variable_ops var s)"
  by (simp add: merge_module_def variable_ops_def foldl_apply_delta)

lemma merge_environment_var:
  "merge_environment env ms var = apply_ops (env var) (concat (map (variable_ops var) ms))"
proof (induction ms arbitrary: env)
  case Nil
  show ?case by (simp add: merge_environment_def apply_ops_def)
next
  case (Cons m ms)
  have "merge_environment env (m # ms) = merge_environment (merge_module env m) ms"
    by (simp add: merge_environment_def)
  then show ?case
    by (simp add: Cons.IH merge_module_var apply_ops_append)
qed

text \<open>
  C3. For every variable and every list of modules, the merged value of the variable is
  the operations that the modules declare for it, in the order of the list, applied one
  after the other to the value the variable had. Of the operations, \<^verbatim>\<open>set\<close> replaces
  the accumulated value whatever it is, \<^verbatim>\<open>prepend\<close> puts the new value and the
  operation's separator before the accumulated value, \<^verbatim>\<open>append\<close> the separator and
  the new value after it. So when \<open>m1\<close> declares \<^verbatim>\<open>prepend va\<close> and \<open>m2\<close> declares
  \<^verbatim>\<open>prepend vb\<close> for a variable whose value is \<open>original\<close>, merging \<open>[m1, m2]\<close> leaves
  \<open>vb @ sep @ va @ sep @ original\<close>.
\<close>

theorem merge_environment_operations:
  "merge_environment env ms var = apply_ops (env var) (concat (map (variable_ops var) ms))
   \<and> apply_ops acc (ops @ [SetValue v]) = Some v
   \<and> (apply_ops acc ops = Some a \<longrightarrow>
        apply_ops acc (ops @ [Prepend v sep]) = Some (v @ sep @ a)
        \<and> apply_ops acc (ops @ [Append v sep]) = Some (a @ sep @ v))
   \<and> (env var = Some original \<and> variable_ops var m1 = [Prepend va sep]
        \<and> variable_ops var m2 = [Prepend vb sep] \<longrightarrow>
        merge_environment env [m1, m2] var = Some (vb @ sep @ va @ sep @ original))"
  by (simp add: merge_environment_var apply_ops_append) (simp add: apply_ops_def)

theorem merge_environment_operations_witness:
  "merge_environment [''PATH'' \<mapsto> ''/usr/bin''] [path_a, path_b] ''PATH'' = Some ''/b:/a:/usr/bin''
   \<and> variable_ops ''PATH'' path_a = [Prepend ''/a'' '':'']
   \<and> variable_ops ''PATH'' path_b = [Prepend ''/b'' '':'']
   \<and> apply_ops (Some ''/usr/bin'') [Append ''/opt'' '':''] = Some ''/usr/bin:/opt''"
  using merge_environment_operations[of "[''PATH'' \<mapsto> ''/usr/bin'']" "[path_a, path_b]" "''PATH''" "Some ''/usr/bin''" "[]"
      "''/opt''" "''/usr/bin''" "'':''" "''/usr/bin''" path_a "''/a''" path_b "''/b''"]
  by (simp add: variable_ops_def path_a_def path_b_def example_spec_def apply_ops_def)

end
